theory Spec2Isabelle
  imports Main
begin

section \<open>Python values used by the web searcher\<close>

text \<open>
  A Python \<open>str\<close> is modelled as a \<open>string\<close>; a \<open>char\<close> stands for one code point
  below 256.  Python's unbounded \<open>int\<close> is \<open>int\<close> (or \<open>nat\<close> where the code only ever
  holds a non-negative value).  An exception is a value of \<open>exn\<close>; a function that can
  raise returns \<open>exn + 'a\<close> with \<open>Inl\<close> for the raised exception.
\<close>

datatype exn =
    HTTPException nat string
  | IndexError string
  | ValueError string
  | AttributeError string
  | KeyError string
  | OverflowError string
  | TypeError string
  | Exception string

subsection \<open>String methods\<close>

text \<open>
  \<open>str.isspace\<close> on one code point below 256: the characters Python's \<open>str.strip()\<close>
  removes are tab, line feed, vertical tab, form feed, carriage return, the four
  separators 0x1C..0x1F, space, NEL (0x85) and the no-break space (0xA0).
\<close>

definition isspace :: "char \<Rightarrow> bool" where
  "isspace c = (let n = (of_char c :: nat) in
     (9 \<le> n \<and> n \<le> 13) \<or> (28 \<le> n \<and> n \<le> 32) \<or> n = 133 \<or> n = 160)"

text \<open>\<open>s.strip()\<close> and \<open>s.strip(chars)\<close>.\<close>

definition strip :: "string \<Rightarrow> string" where
  "strip s = rev (dropWhile isspace (rev (dropWhile isspace s)))"

definition strip_chars :: "string \<Rightarrow> string \<Rightarrow> string" where
  "strip_chars chars s =
     rev (dropWhile (\<lambda>c. c \<in> set chars) (rev (dropWhile (\<lambda>c. c \<in> set chars) s)))"

text \<open>\<open>s.startswith(p)\<close>.\<close>

definition startswith :: "string \<Rightarrow> string \<Rightarrow> bool" where
  "startswith s p = (take (length p) s = p)"

text \<open>\<open>s.split(sep)\<close> for a separator of one character: never an empty list.\<close>

fun split :: "string \<Rightarrow> char \<Rightarrow> string list" where
  "split [] sep = [[]]"
| "split (c # cs) sep =
     (if c = sep then [] # split cs sep
      else (case split cs sep of
              [] \<Rightarrow> [[c]]
            | w # ws \<Rightarrow> (c # w) # ws))"

text \<open>\<open>sep.join(xs)\<close>.\<close>

fun join :: "string \<Rightarrow> string list \<Rightarrow> string" where
  "join sep [] = []"
| "join sep [x] = x"
| "join sep (x # y # ys) = x @ sep @ join sep (y # ys)"

text \<open>\<open>s.split(sep, 1)\<close>: at most one split, at the first occurrence of \<open>sep\<close>.\<close>

fun split1 :: "string \<Rightarrow> char \<Rightarrow> string list" where
  "split1 [] sep = [[]]"
| "split1 (c # cs) sep =
     (if c = sep then [[], cs]
      else (case split1 cs sep of
              w # ws \<Rightarrow> (c # w) # ws
            | [] \<Rightarrow> [[c]]))"


text \<open>\<open>sub in s\<close> on strings.\<close>

fun contains :: "string \<Rightarrow> string \<Rightarrow> bool" where
  "contains [] sub = (sub = [])"
| "contains (c # cs) sub = (startswith (c # cs) sub \<or> contains cs sub)"

text \<open>\<open>xs[-1]\<close>: the last element, \<open>IndexError\<close> on an empty list.\<close>

definition index_last :: "'a list \<Rightarrow> exn + 'a" where
  "index_last xs =
     (case xs of [] \<Rightarrow> Inl (IndexError ''list index out of range'') | _ # _ \<Rightarrow> Inr (last xs))"

section \<open>The action parser (agents/nodes.py)\<close>

text \<open>
  The value of a prediction's \<open>args\<close> entry: \<open>None\<close>, a list of strings, or (for the
  retry marker) a single string.
\<close>

datatype pyargs = ArgNone | ArgList "string list" | ArgStr string

text \<open>
  The dictionary \<open>{"action": ..., "args": ...}\<close>.  The \<open>action\<close> entry is optional
  because the query loop reads it with \<open>dict.get\<close>; \<open>parse\<close> always sets it.
\<close>

record prediction =
  action :: "string option"
  args :: pyargs

definition action_prefix :: string where
  "action_prefix = ''Action: ''"

text \<open>
  \<open>parse\<close>, statement by statement.  The two places where Python could raise are kept
  as branches: indexing \<open>[-1]\<close> and unpacking \<open>action, action_input = split_output\<close>
  (a \<open>ValueError\<close> unless the list has exactly two elements; a list of one element
  takes the \<open>if\<close> branch before).
\<close>

definition parse :: "string \<Rightarrow> exn + prediction" where
  "parse text =
     (case index_last (split (strip text) CHR 0x0A) of
        Inl e \<Rightarrow> Inl e
      | Inr action_block \<Rightarrow>
          if \<not> startswith action_block action_prefix
          then Inr \<lparr>action = Some ''retry'',
                    args = ArgStr (''Could not parse LLM Output: '' @ text)\<rparr>
          else
            let action_str = drop (length action_prefix) action_block;
                split_output = split1 action_str CHR '' ''
            in (case split_output of
                  [] \<Rightarrow> Inl (ValueError ''not enough values to unpack (expected 2, got 0)'')
                | [a] \<Rightarrow> Inr \<lparr>action = Some (strip a), args = ArgNone\<rparr>
                | [a, action_input] \<Rightarrow>
                    Inr \<lparr>action = Some (strip a),
                         args = ArgList (map (\<lambda>inp. strip_chars ''[]'' (strip inp))
                                             (split (strip action_input) CHR '';''))\<rparr>
                | _ \<Rightarrow> Inl (ValueError ''too many values to unpack (expected 2)'')))"

subsection \<open>The parser as the specification words it\<close>

text \<open>
  These three definitions follow the words of the specification, not the code; they
  are compared with \<open>parse\<close> below.  The last non-empty line of a text; a piece
  trimmed of surrounding whitespace and of a single layer of enclosing brackets; and
  the action parser that splits the remainder on the first whitespace run.
\<close>

definition last_nonempty_line :: "string \<Rightarrow> string" where
  "last_nonempty_line text =
     (case filter (\<lambda>l. l \<noteq> []) (split text CHR 0x0A) of
        [] \<Rightarrow> []
      | l # ls \<Rightarrow> last (l # ls))"

definition trim_one_layer :: "string \<Rightarrow> string" where
  "trim_one_layer piece =
     (let p = strip piece
      in if 2 \<le> length p \<and> hd p = CHR ''['' \<and> last p = CHR '']''
         then butlast (tl p) else p)"

definition action_parser_spec :: "string \<Rightarrow> prediction" where
  "action_parser_spec text =
     (let line = last_nonempty_line text
      in if \<not> startswith line action_prefix
         then \<lparr>action = Some ''retry'',
                args = ArgStr (''Could not parse LLM Output: '' @ text)\<rparr>
         else
           let remainder = drop (length action_prefix) line;
               name = takeWhile (\<lambda>c. \<not> isspace c) remainder;
               after_name = dropWhile (\<lambda>c. \<not> isspace c) remainder
           in if after_name = []
              then \<lparr>action = Some (strip name), args = ArgNone\<rparr>
              else \<lparr>action = Some (strip name),
                     args = ArgList (map trim_one_layer
                                         (split (dropWhile isspace after_name) CHR '';''))\<rparr>)"

section \<open>The scratchpad accumulator (agents/edge.py)\<close>

subsection \<open>Decimal numbers\<close>



fun str_nat :: "nat \<Rightarrow> string" where
  "str_nat n =
     (if n < 10 then [char_of (48 + n)]
      else str_nat (n div 10) @ [char_of (48 + n mod 10)])"

declare str_nat.simps [simp del]

definition str_int :: "int \<Rightarrow> string" where
  "str_int i = (if i < 0 then CHR ''-'' # str_nat (nat (- i)) else str_nat (nat i))"

text \<open>
  The interpreter refuses to convert between \<open>int\<close> and \<open>str\<close> beyond
  \<open>sys.int_max_str_digits\<close> decimal digits, 4300 unless the process sets another
  limit (the repository never does): \<open>int(s)\<close> raises \<open>ValueError\<close> when \<open>s\<close> holds
  more digits, leading zeros counted, and \<open>str(i)\<close>, also inside an f-string,
  raises \<open>ValueError\<close> when \<open>i\<close> has more digits, the sign not counted.
  \<open>py_int\<close> is \<open>int\<close> on a string of digits, \<open>format_int\<close> is \<open>str\<close> on an
  \<open>int\<close>.  \<open>digit_bound\<close> is the least number with too many digits.
\<close>

definition int_max_str_digits :: nat where
  "int_max_str_digits = 4300"



definition str_limit_error :: exn where
  "str_limit_error =
     ValueError (''Exceeds the limit (4300 digits) for integer string conversion; ''
                   @ ''use sys.set_int_max_str_digits() to increase the limit'')"

definition format_int :: "int \<Rightarrow> exn + string" where
  "format_int i =
     (if int_max_str_digits < length (str_nat (nat \<bar>i\<bar>))
      then Inl str_limit_error
      else Inr (str_int i))"



subsection \<open>\<open>update_scratchpad\<close>\<close>

text \<open>
  The two entries of the agent state the function reads.  \<open>scratchpad\<close> holds the
  contents of the messages, \<open>None\<close> when the key is absent (\<open>state.get\<close>);
  \<open>observation\<close> is read with \<open>state['observation']\<close>, a \<open>KeyError\<close> when absent.
  Every other entry of the state is carried along unchanged (\<open>{**state, ...}\<close>): it is
  the extension part of the record.  The f-string formats \<open>step\<close> before it reads the
  observation, so a step number of too many digits raises first.
\<close>

record agent_state =
  scratchpad :: "string list option"
  observation :: "string option"


section \<open>Sessions (session.py)\<close>

text \<open>
  A \<open>datetime\<close> is a number of microseconds; \<open>datetime.now()\<close> is an argument of the
  function that reads the clock.  The page and the graph are opaque handles.
\<close>

datatype session_status = Active | Processing | Completed | Error

record session_info =
  session_id :: string
  page :: "nat option"
  graph :: nat
  status :: session_status
  current_query :: "string option"
  result :: "string option"
  error :: "string option"
  current_step :: "nat option"
  current_action :: "string option"
  created_at :: int
  last_accessed :: int
  timeout_minutes :: int

text \<open>
  \<open>timedelta(minutes=m)\<close> in microseconds; the constructor raises \<open>OverflowError\<close>
  when the number of days leaves \<open>-999999999..999999999\<close>, with one message when the
  days still fit a C \<open>int\<close> and another when they do not.
\<close>

definition timedelta_minutes :: "int \<Rightarrow> exn + int" where
  "timedelta_minutes m =
     (if - 999999999 \<le> m div 1440 \<and> m div 1440 \<le> 999999999
      then Inr (m * 60000000)
      else if - 2147483648 \<le> m div 1440 \<and> m div 1440 \<le> 2147483647
      then Inl (OverflowError (''days='' @ str_int (m div 1440)
                                @ ''; must have magnitude <= 999999999''))
      else Inl (OverflowError ''Python int too large to convert to C int''))"

definition update_last_accessed :: "int \<Rightarrow> session_info \<Rightarrow> session_info" where
  "update_last_accessed now s = s\<lparr>last_accessed := now\<rparr>"

definition is_expired :: "int \<Rightarrow> session_info \<Rightarrow> exn + bool" where
  "is_expired now s =
     (case timedelta_minutes (timeout_minutes s) of
        Inl e \<Rightarrow> Inl e
      | Inr d \<Rightarrow> Inr (now - last_accessed s > d))"

text \<open>
  The manager: the dictionary of sessions, and the cleanup tasks the manager has
  handed to the event loop with \<open>asyncio.create_task\<close> that have not run yet, in the
  order of their creation.
\<close>

record session_manager =
  sessions :: "string \<rightharpoonup> session_info"
  scheduled :: "string list"

text \<open>
  \<open>get_session\<close> reads the clock twice: \<open>now_check\<close> in \<open>is_expired\<close>, \<open>now_touch\<close>
  in \<open>update_last_accessed\<close>.  It is called from the request handlers, inside the
  running event loop, so \<open>asyncio.create_task\<close> itself does not fail.  The session it
  returns is the object stored in the dictionary: the model returns the updated record
  and stores it.
\<close>

definition get_session ::
  "session_manager \<Rightarrow> string \<Rightarrow> int \<Rightarrow> int \<Rightarrow> (exn + session_info) \<times> session_manager" where
  "get_session mgr sid now_check now_touch =
     (case sessions mgr sid of
        None \<Rightarrow> (Inl (HTTPException 404 ''Session not found''), mgr)
      | Some session \<Rightarrow>
          (case is_expired now_check session of
             Inl e \<Rightarrow> (Inl e, mgr)
           | Inr True \<Rightarrow>
               (Inl (HTTPException 404 ''Session expired''),
                mgr\<lparr>scheduled := scheduled mgr @ [sid]\<rparr>)
           | Inr False \<Rightarrow>
               (let session' = update_last_accessed now_touch session
                in (Inr session', mgr\<lparr>sessions := (sessions mgr)(sid \<mapsto> session')\<rparr>))))"

text \<open>
  \<open>close_session\<close>, run without another task in between: the membership test, the
  closing of the page (awaited; a failure of it is logged and ignored) and the
  deletion of the entry.  \<open>_cleanup_session\<close> is \<open>close_session\<close> with its result
  dropped; running the oldest scheduled task is \<open>run_scheduled\<close>.
\<close>

definition close_session :: "session_manager \<Rightarrow> string \<Rightarrow> bool \<times> session_manager" where
  "close_session mgr sid =
     (case sessions mgr sid of
        None \<Rightarrow> (False, mgr)
      | Some session \<Rightarrow> (True, mgr\<lparr>sessions := (sessions mgr)(sid := None)\<rparr>))"

definition cleanup_session :: "session_manager \<Rightarrow> string \<Rightarrow> session_manager" where
  "cleanup_session mgr sid = snd (close_session mgr sid)"

definition run_scheduled :: "session_manager \<Rightarrow> session_manager" where
  "run_scheduled mgr =
     (case scheduled mgr of
        [] \<Rightarrow> mgr
      | sid # rest \<Rightarrow> cleanup_session (mgr\<lparr>scheduled := rest\<rparr>) sid)"


section \<open>The query endpoint (api/routes.py)\<close>

subsection \<open>Rendering \<open>f"{action}: {action_input}"\<close>\<close>

text \<open>
  \<open>repr\<close> of a string, for code points below 256: the quote is \<open>"\<close> when the string
  holds a \<open>'\<close> and no \<open>"\<close>, else \<open>'\<close>; the quote and the backslash are escaped, tab,
  line feed and carriage return have their letter, and any other code point that is
  not printable is written \<open>\xNN\<close>.
\<close>

definition isprintable :: "char \<Rightarrow> bool" where
  "isprintable c = (let n = (of_char c :: nat) in
     (32 \<le> n \<and> n < 127) \<or> (161 \<le> n \<and> n \<noteq> 173))"

definition hex_digit :: "nat \<Rightarrow> char" where
  "hex_digit d = (if d < 10 then char_of (48 + d) else char_of (87 + d))"

definition repr_char :: "char \<Rightarrow> char \<Rightarrow> string" where
  "repr_char quote c =
     (if c = quote \<or> c = CHR 0x5C then [CHR 0x5C, c]
      else if c = CHR 0x09 then [CHR 0x5C, CHR ''t'']
      else if c = CHR 0x0A then [CHR 0x5C, CHR ''n'']
      else if c = CHR 0x0D then [CHR 0x5C, CHR ''r'']
      else if \<not> isprintable c
        then [CHR 0x5C, CHR ''x'', hex_digit (of_char c div 16), hex_digit (of_char c mod 16)]
      else [c])"

definition repr :: "string \<Rightarrow> string" where
  "repr s =
     (let quote = (if CHR 0x27 \<in> set s \<and> CHR 0x22 \<notin> set s then CHR 0x22 else CHR 0x27)
      in quote # concat (map (repr_char quote) s) @ [quote])"

text \<open>\<open>str\<close> of the two values interpolated into \<open>current_action\<close>.\<close>

definition str_action :: "string option \<Rightarrow> string" where
  "str_action a = (case a of None \<Rightarrow> ''None'' | Some name \<Rightarrow> name)"

fun str_args :: "pyargs \<Rightarrow> string" where
  "str_args ArgNone = ''None''"
| "str_args (ArgStr s) = s"
| "str_args (ArgList xs) = ''['' @ join '', '' (map repr xs) @ '']''"

text \<open>\<open>action_input[0] if action_input else None\<close>.\<close>

fun first_arg :: "pyargs \<Rightarrow> string option" where
  "first_arg ArgNone = None"
| "first_arg (ArgList []) = None"
| "first_arg (ArgList (x # xs)) = Some x"
| "first_arg (ArgStr []) = None"
| "first_arg (ArgStr (c # cs)) = Some [c]"

text \<open>\<open>str(e)\<close> in the \<open>except\<close> clause.\<close>

fun str_exn :: "exn \<Rightarrow> string" where
  "str_exn (HTTPException code detail) = str_nat code @ '': '' @ detail"
| "str_exn (IndexError m) = m"
| "str_exn (ValueError m) = m"
| "str_exn (AttributeError m) = m"
| "str_exn (KeyError k) = repr k"
| "str_exn (OverflowError m) = m"
| "str_exn (TypeError m) = m"
| "str_exn (Exception m) = m"

subsection \<open>The decision stream\<close>

text \<open>
  One event of \<open>session.graph.astream(...)\<close> is a dictionary with the name of the graph
  node that produced it as its key.  \<open>Agent p\<close> is an event with the key \<open>"agent"\<close>,
  \<open>p\<close> the value of \<open>event["agent"].get("prediction")\<close>; \<open>Other\<close> is an event of any
  other node (a tool, the scratchpad update).  The stream is the list of the events it
  delivers, followed by how it ends: exhausted, or raising an exception \<open>e\<close>, of which
  the handler reads \<open>str(e)\<close> only: \<open>Raised m\<close> is an exception with \<open>str(e) = m\<close>.
\<close>

datatype event = Agent "prediction option" | Other

datatype stream_end = Exhausted | Raised string

record query_request =
  question :: string
  max_steps :: int

record query_response =
  response_session_id :: string
  response_status :: session_status
  answer :: "string option"

subsection \<open>\<open>process_query\<close>\<close>

text \<open>
  The \<open>async for\<close> loop of \<open>process_query\<close>.  The result is the exception that leaves
  the loop, or \<open>final_answer\<close> when the loop ends by \<open>break\<close> or with the stream; the
  session carries the assignments to \<open>current_step\<close> and \<open>current_action\<close>.
  \<open>"ANSWER" in action\<close> raises \<open>TypeError\<close> when \<open>action\<close> is \<open>None\<close>; building the
  message of the step bound raises \<open>ValueError\<close> when the bound has too many digits.
\<close>

fun event_loop ::
  "int \<Rightarrow> event list \<Rightarrow> stream_end \<Rightarrow> nat \<Rightarrow> session_info
     \<Rightarrow> (exn + string option) \<times> session_info" where
  "event_loop limit [] Exhausted step_count session = (Inr None, session)"
| "event_loop limit [] (Raised m) step_count session = (Inl (Exception m), session)"
| "event_loop limit (Other # events) fin step_count session =
     event_loop limit events fin step_count session"
| "event_loop limit (Agent p # events) fin step_count session =
     (let step_count' = step_count + 1;
          pred = (case p of None \<Rightarrow> \<lparr>action = None, args = ArgNone\<rparr> | Some d \<Rightarrow> d);
          action_input = args pred;
          session' = session\<lparr>current_step := Some step_count',
                             current_action :=
                               Some (str_action (action pred) @ '': '' @ str_args action_input)\<rparr>
      in (case action pred of
            None \<Rightarrow>
              (Inl (TypeError ''argument of type 'NoneType' is not iterable''), session')
          | Some a \<Rightarrow>
              if contains a ''ANSWER'' then (Inr (first_arg action_input), session')
              else if int step_count' > limit
                then (case format_int limit of
                        Inl e \<Rightarrow> (Inl e, session')
                      | Inr limit_text \<Rightarrow>
                          (Inl (Exception (''Max steps ('' @ limit_text @ '') exceeded'')),
                           session'))
              else event_loop limit events fin step_count' session'))"

definition process_query ::
  "query_request \<Rightarrow> event list \<Rightarrow> stream_end \<Rightarrow> session_info \<Rightarrow> session_info" where
  "process_query request events fin session =
     (case event_loop (max_steps request) events fin 0 session of
        (Inr final_answer, session') \<Rightarrow>
          session'\<lparr>status := Completed, result := final_answer\<rparr>
      | (Inl e, session') \<Rightarrow>
          session'\<lparr>status := Error, error := Some (str_exn e)\<rparr>)"

subsection \<open>\<open>query_agent\<close>\<close>

text \<open>
  The handler up to its \<open>return\<close>: the lookup, the four assignments to the session, and
  the response.  \<open>process_query\<close> is handed to the framework as a background task and
  runs after the response, on the session object the handler has just updated.
\<close>

definition query_agent ::
  "session_manager \<Rightarrow> string \<Rightarrow> query_request \<Rightarrow> int \<Rightarrow> int
     \<Rightarrow> (exn + query_response) \<times> session_manager" where
  "query_agent mgr sid request now_check now_touch =
     (case get_session mgr sid now_check now_touch of
        (Inl e, mgr') \<Rightarrow> (Inl e, mgr')
      | (Inr session, mgr') \<Rightarrow>
          (let session' = session\<lparr>status := Processing,
                                  current_query := Some (question request),
                                  result := None,
                                  error := None\<rparr>
           in (Inr \<lparr>response_session_id = sid, response_status = Processing, answer = None\<rparr>,
               mgr'\<lparr>sessions := (sessions mgr')(sid \<mapsto> session')\<rparr>)))"

text \<open>
  What the loop needs of a prefix of the stream to get past it: every agent event in
  it names an action that is not an answer.  \<open>agent_count\<close> is the number of steps the
  prefix adds to \<open>step_count\<close>.
\<close>

fun names_non_answer :: "event \<Rightarrow> bool" where
  "names_non_answer Other = True"
| "names_non_answer (Agent None) = False"
| "names_non_answer (Agent (Some d)) =
     (case action d of None \<Rightarrow> False | Some a \<Rightarrow> \<not> contains a ''ANSWER'')"

definition agent_count :: "event list \<Rightarrow> nat" where
  "agent_count events = length (filter (\<lambda>e. e \<noteq> Other) events)"

section \<open>Several queries on one session\<close>

text \<open>
  The record \<open>create_session\<close> builds: \<open>SessionInfo(session_id, page, graph,
  timeout_minutes)\<close>, every other field at its default; \<open>created_at\<close> and
  \<open>last_accessed\<close> are two readings of the clock.
\<close>

definition new_session ::
  "string \<Rightarrow> nat option \<Rightarrow> nat \<Rightarrow> int \<Rightarrow> int \<Rightarrow> int \<Rightarrow> session_info" where
  "new_session sid pg gr timeout now_created now_accessed =
     \<lparr>session_id = sid, page = pg, graph = gr, status = Active,
      current_query = None, result = None, error = None,
      current_step = None, current_action = None,
      created_at = now_created, last_accessed = now_accessed, timeout_minutes = timeout\<rparr>"

text \<open>
  \<open>process_query\<close> runs as a background task and gives way to other tasks only where it
  waits for the next event of its stream.  A running task is its request, what is left
  of its stream and its \<open>step_count\<close>; \<open>task_step\<close> is what it does to the session
  between two waits: the body of the loop for one event, together with the statements
  after the loop or the \<open>except\<close> clause when the loop ends there.  The second
  component is the task to go on with, \<open>None\<close> when the task has ended.
\<close>

datatype task = Task query_request "event list" stream_end nat

fun task_step :: "task \<Rightarrow> session_info \<Rightarrow> session_info \<times> task option" where
  "task_step (Task request [] Exhausted step_count) session =
     (session\<lparr>status := Completed, result := None\<rparr>, None)"
| "task_step (Task request [] (Raised m) step_count) session =
     (session\<lparr>status := Error, error := Some (str_exn (Exception m))\<rparr>, None)"
| "task_step (Task request (Other # events) fin step_count) session =
     (session, Some (Task request events fin step_count))"
| "task_step (Task request (Agent p # events) fin step_count) session =
     (let step_count' = step_count + 1;
          pred = (case p of None \<Rightarrow> \<lparr>action = None, args = ArgNone\<rparr> | Some d \<Rightarrow> d);
          action_input = args pred;
          session' = session\<lparr>current_step := Some step_count',
                             current_action :=
                               Some (str_action (action pred) @ '': '' @ str_args action_input)\<rparr>
      in (case action pred of
            None \<Rightarrow>
              (session'\<lparr>status := Error,
                         error := Some (str_exn
                           (TypeError ''argument of type 'NoneType' is not iterable''))\<rparr>,
               None)
          | Some a \<Rightarrow>
              if contains a ''ANSWER''
              then (session'\<lparr>status := Completed, result := first_arg action_input\<rparr>, None)
              else if int step_count' > max_steps request
                then (case format_int (max_steps request) of
                        Inl e \<Rightarrow> (session'\<lparr>status := Error, error := Some (str_exn e)\<rparr>, None)
                      | Inr limit_text \<Rightarrow>
                          (session'\<lparr>status := Error,
                                     error := Some (str_exn (Exception
                                       (''Max steps ('' @ limit_text @ '') exceeded'')))\<rparr>,
                           None))
              else (session', Some (Task request events fin step_count'))))"

text \<open>A task run from where it stands to its end, with nothing in between.\<close>

inductive task_run :: "task \<Rightarrow> session_info \<Rightarrow> session_info \<Rightarrow> bool" where
  last_step: "task_step t s = (s', None) \<Longrightarrow> task_run t s s'"
| next_step: "task_step t s = (s1, Some t1) \<Longrightarrow> task_run t1 s1 s' \<Longrightarrow> task_run t s s'"

text \<open>
  The records a registered session can hold, with the tasks running on it: the record
  of a new session; a successful lookup; a submitted query, which starts a task on a
  stream of its own; and one step of any running task.  The handler does not wait
  between its lookup and its assignments, so a submission is one step.  A failed
  lookup leaves the record as it is, and closing the session takes the record out of
  the registry: neither is a step here.
\<close>

inductive reachable :: "session_info \<Rightarrow> task list \<Rightarrow> bool" where
  created: "reachable (new_session sid pg gr timeout now_created now_accessed) []"
| looked_up:
    "reachable s tasks \<Longrightarrow> sessions mgr sid = Some s \<Longrightarrow>
     get_session mgr sid now_check now_touch = (Inr s', mgr') \<Longrightarrow>
     reachable s' tasks"
| submitted:
    "reachable s tasks \<Longrightarrow> sessions mgr sid = Some s \<Longrightarrow>
     query_agent mgr sid request now_check now_touch = (Inr resp, mgr') \<Longrightarrow>
     sessions mgr' sid = Some s' \<Longrightarrow>
     reachable s' (tasks @ [Task request events fin 0])"
| stepped:
    "reachable s tasks \<Longrightarrow> i < length tasks \<Longrightarrow>
     task_step (tasks ! i) s = (s', Some t') \<Longrightarrow>
     reachable s' (tasks[i := t'])"
| ended:
    "reachable s tasks \<Longrightarrow> i < length tasks \<Longrightarrow>
     task_step (tasks ! i) s = (s', None) \<Longrightarrow>
     reachable s' (take i tasks @ drop (Suc i) tasks)"

section \<open>Example sessions\<close>

text \<open>
  A session created at time 0 with a timeout of one minute, alone in its manager; and
  the same session while a first query is running at its third step.
\<close>

definition example_session :: session_info where
  "example_session =
     \<lparr>session_id = ''s1'', page = Some 0, graph = 0, status = Active,
      current_query = None, result = None, error = None,
      current_step = None, current_action = None,
      created_at = 0, last_accessed = 0, timeout_minutes = 1\<rparr>"

definition example_manager :: session_manager where
  "example_manager = \<lparr>sessions = [''s1'' \<mapsto> example_session], scheduled = []\<rparr>"

definition busy_session :: session_info where
  "busy_session =
     example_session\<lparr>status := Processing, current_query := Some ''first question'',
                     current_step := Some 3, current_action := Some ''Click: [14]''\<rparr>"

definition busy_manager :: session_manager where
  "busy_manager = \<lparr>sessions = [''s1'' \<mapsto> busy_session], scheduled = []\<rparr>"

text \<open>
  Two queries on the example session, the second submitted while the first is
  running: the first task then gets an answer, the second then finds its stream
  raising.
\<close>

definition first_request :: query_request where
  "first_request = \<lparr>question = ''first question'', max_steps = 150\<rparr>"

definition second_request :: query_request where
  "second_request = \<lparr>question = ''second question'', max_steps = 150\<rparr>"

definition first_task :: task where
  "first_task =
     Task first_request [Agent (Some \<lparr>action = Some ''ANSWER;'', args = ArgList [''A'']\<rparr>)]
       Exhausted 0"

definition second_task :: task where
  "second_task = Task second_request [] (Raised ''boom'') 0"

definition overlap_submitted :: session_info where
  "overlap_submitted =
     example_session\<lparr>last_accessed := 8, status := Processing,
                     current_query := Some ''second question'',
                     result := None, error := None\<rparr>"

definition overlap_final :: session_info where
  "overlap_final = fst (task_step second_task (fst (task_step first_task overlap_submitted)))"

definition first_submitted :: session_info where
  "first_submitted =
     example_session\<lparr>last_accessed := 6, status := Processing,
                     current_query := Some ''first question'',
                     result := None, error := None\<rparr>"

text \<open>
  The first query run alone on a stream whose only event is an answer without an
  argument list.
\<close>

definition silent_final :: session_info where
  "silent_final =
     process_query first_request [Agent (Some \<lparr>action = Some ''ANSWER'', args = ArgNone\<rparr>)]
       Exhausted first_submitted"

text \<open>An active record has no payload, and a record in error has its error message.\<close>

definition payload_ok :: "session_info \<Rightarrow> bool" where
  "payload_ok s =
     ((status s = Active \<longrightarrow> result s = None \<and> error s = None) \<and>
      (status s = Error \<longrightarrow> error s \<noteq> None))"

section \<open>Lemmas\<close>

subsection \<open>Splitting and joining\<close>

lemma split_not_Nil: "split s sep \<noteq> []"
  by (induction s) (auto split: list.splits)

lemma split_no_sep: "sep \<notin> set s \<Longrightarrow> split s sep = [s]"
  by (induction s) auto

lemma split_append: "split (a @ sep # b) sep = split a sep @ split b sep"
proof (induction a)
  case Nil show ?case by simp
next
  case (Cons c a)
  then show ?case
    by (cases "split a sep") (auto simp: split_not_Nil)
qed

text \<open>Splitting is the inverse of joining, in both directions.\<close>

lemma split_join:
  "pieces \<noteq> [] \<Longrightarrow> \<forall>p \<in> set pieces. sep \<notin> set p \<Longrightarrow> split (join [sep] pieces) sep = pieces"
  by (induction "[sep]" pieces rule: join.induct) (auto simp: split_no_sep split_append)

lemma join_Cons_Cons: "join sep ((c # a) # list) = c # join sep (a # list)"
  by (cases list) auto

lemma join_split: "join [sep] (split s sep) = s"
proof (induction s)
  case Nil show ?case by simp
next
  case (Cons c cs)
  then show ?case
    by (cases "split cs sep") (auto simp: split_not_Nil join_Cons_Cons)
qed

lemma split_pieces_no_sep: "p \<in> set (split s sep) \<Longrightarrow> sep \<notin> set p"
  by (induction s arbitrary: p) (auto split: if_splits list.splits)

text \<open>The last piece is the text after the last separator.\<close>

lemma last_split_append:
  assumes "sep \<notin> set line" and "pre = [] \<or> last pre = sep"
  shows "last (split (pre @ line) sep) = line"
proof (cases "pre = []")
  case True
  with assms show ?thesis by (simp add: split_no_sep)
next
  case False
  with assms obtain p0 where "pre = p0 @ [sep]"
    by (metis append_butlast_last_id)
  then have "split (pre @ line) sep = split p0 sep @ [line]"
    using assms(1) by (simp add: split_append split_no_sep)
  then show ?thesis by simp
qed

lemma split1_no_sep: "sep \<notin> set s \<Longrightarrow> split1 s sep = [s]"
  by (induction s) auto

lemma split1_append_sep: "sep \<notin> set p \<Longrightarrow> split1 (p @ sep # s) sep = [p, s]"
  by (induction p) auto

lemma split1_cases: "(\<exists>a. split1 s sep = [a]) \<or> (\<exists>a b. split1 s sep = [a, b])"
  by (induction s) (auto split: list.splits)


lemma index_last_split: "index_last (split s sep) = Inr (last (split s sep))"
  by (cases "split s sep") (auto simp: index_last_def split_not_Nil)


subsection \<open>The parser\<close>

lemma parse_returns: "\<exists>p. parse text = Inr p"
  using split1_cases[of "drop (length action_prefix) (last (split (strip text) CHR 0x0A))" "CHR '' ''"]
  by (auto simp: parse_def index_last_split Let_def)

lemma startswith_append: "startswith (p @ s) p"
  by (simp add: startswith_def)

lemma parse_action_block:
  assumes "strip text = pre @ line" and "pre = [] \<or> last pre = CHR 0x0A"
    and "CHR 0x0A \<notin> set line"
  shows "index_last (split (strip text) CHR 0x0A) = Inr line"
  using assms by (simp add: index_last_split last_split_append)

subsection \<open>Decimal numbers\<close>






lemma str_int_minus_7: "str_int (- 7) = ''-7''"
  by code_simp





















subsection \<open>The event loop\<close>

lemma agent_count_Nil: "agent_count [] = 0"
  by (simp add: agent_count_def)

lemma agent_count_Other: "agent_count (Other # events) = agent_count events"
  by (simp add: agent_count_def)

lemma agent_count_Agent: "agent_count (Agent p # events) = Suc (agent_count events)"
  by (simp add: agent_count_def)


lemma event_loop_continue:
  assumes "action d = Some a" and "\<not> contains a ''ANSWER''" and "int (Suc n) \<le> limit"
  shows "event_loop limit (Agent (Some d) # events) fin n s =
         event_loop limit events fin (Suc n)
           (s\<lparr>current_step := Some (Suc n),
              current_action := Some (str_action (action d) @ '': '' @ str_args (args d))\<rparr>)"
  using assms by (simp add: Let_def)

text \<open>
  A prefix of events that neither answers nor exhausts the bound only moves the step
  counter and the two progress fields.
\<close>

lemma event_loop_prefix:
  assumes "\<forall>e \<in> set pre. names_non_answer e"
    and "agent_count pre = 0 \<or> int (n + agent_count pre) \<le> limit"
  shows "\<exists>cs ca. event_loop limit (pre @ rest) fin n s =
           event_loop limit rest fin (n + agent_count pre)
             (s\<lparr>current_step := cs, current_action := ca\<rparr>)"
  using assms
proof (induction pre arbitrary: n s)
  case Nil
  have "s = s\<lparr>current_step := current_step s, current_action := current_action s\<rparr>"
    by simp
  then show ?case by (metis add.right_neutral agent_count_Nil append_Nil)
next
  case (Cons e pre)
  show ?case
  proof (cases e)
    case Other
    with Cons.prems have "\<forall>e \<in> set pre. names_non_answer e"
      and "agent_count pre = 0 \<or> int (n + agent_count pre) \<le> limit"
      by (simp_all add: agent_count_Other)
    from Cons.IH[OF this] Other show ?thesis
      by (simp add: agent_count_Other)
  next
    case (Agent p)
    with Cons.prems obtain d a where d: "p = Some d" "action d = Some a" "\<not> contains a ''ANSWER''"
      by (cases p) (auto split: option.splits)
    from Cons.prems Agent have le: "int (Suc n + agent_count pre) \<le> limit"
      by (simp add: agent_count_Agent)
    then have le1: "int (Suc n) \<le> limit" by simp
    let ?s = "s\<lparr>current_step := Some (Suc n),
              current_action := Some (str_action (action d) @ '': '' @ str_args (args d))\<rparr>"
    from Cons.prems have "\<forall>e \<in> set pre. names_non_answer e" by simp
    from Cons.IH[OF this, of "Suc n" ?s] le
    obtain cs ca where "event_loop limit (pre @ rest) fin (Suc n) ?s =
           event_loop limit rest fin (Suc n + agent_count pre)
             (?s\<lparr>current_step := cs, current_action := ca\<rparr>)"
      by blast
    moreover have "?s\<lparr>current_step := cs, current_action := ca\<rparr> =
        s\<lparr>current_step := cs, current_action := ca\<rparr>" by simp
    ultimately have "event_loop limit ((e # pre) @ rest) fin n s =
           event_loop limit rest fin (n + agent_count (e # pre))
             (s\<lparr>current_step := cs, current_action := ca\<rparr>)"
      using Agent d event_loop_continue[OF d(2,3) le1, of "pre @ rest" fin s]
      by (simp add: agent_count_Agent)
    then show ?thesis by blast
  qed
qed

lemma event_loop_answer:
  assumes "action d = Some a" and "contains a ''ANSWER''"
  shows "fst (event_loop limit (Agent (Some d) # rest) fin n s) = Inr (first_arg (args d))"
  using assms by (simp add: Let_def)

lemma process_query_Inr:
  "fst (event_loop (max_steps request) events fin 0 s) = Inr r \<Longrightarrow>
   status (process_query request events fin s) = Completed \<and>
   result (process_query request events fin s) = r \<and>
   error (process_query request events fin s) =
     error (snd (event_loop (max_steps request) events fin 0 s))"
  by (cases "event_loop (max_steps request) events fin 0 s") (simp add: process_query_def)

lemma process_query_Inl:
  "fst (event_loop (max_steps request) events fin 0 s) = Inl e \<Longrightarrow>
   status (process_query request events fin s) = Error \<and>
   error (process_query request events fin s) = Some (str_exn e) \<and>
   result (process_query request events fin s) =
     result (snd (event_loop (max_steps request) events fin 0 s))"
  by (cases "event_loop (max_steps request) events fin 0 s") (simp add: process_query_def)



text \<open>The loop writes no field of the session but the two progress fields.\<close>

lemma event_loop_keeps:
  "result (snd (event_loop limit events fin n s)) = result s \<and>
   error (snd (event_loop limit events fin n s)) = error s \<and>
   status (snd (event_loop limit events fin n s)) = status s \<and>
   current_query (snd (event_loop limit events fin n s)) = current_query s"
proof (induction limit events fin n s rule: event_loop.induct)
  case (4 limit p events fin step_count session)
  show ?case
  proof (cases "case p of None \<Rightarrow> None | Some d \<Rightarrow> action d")
    case None
    then show ?thesis by (auto simp: Let_def split: option.splits)
  next
    case (Some a)
    then have act: "action (case p of None \<Rightarrow> \<lparr>action = None, args = ArgNone\<rparr> | Some d \<Rightarrow> d) = Some a"
      by (auto split: option.splits)
    show ?thesis
    proof (cases "contains a ''ANSWER'' \<or> int (step_count + 1) > limit")
      case True
      with act show ?thesis by (auto simp: Let_def split: sum.splits)
    next
      case False
      with act "4.IH"[OF refl refl refl refl act] show ?thesis
        by (simp add: Let_def)
    qed
  qed
qed simp_all

subsection \<open>Expiry\<close>

lemma is_expired_iff:
  assumes "- 999999999 \<le> timeout_minutes s div 1440" and "timeout_minutes s div 1440 \<le> 999999999"
  shows "is_expired now s = Inr (now - last_accessed s > timeout_minutes s * 60000000)"
  using assms by (simp add: is_expired_def timedelta_minutes_def)



subsection \<open>Tasks\<close>

lemma get_session_Inr:
  assumes "sessions mgr sid = Some s" and "get_session mgr sid now_check now_touch = (Inr s', mgr')"
  shows "s' = s\<lparr>last_accessed := now_touch\<rparr>"
  using assms
  by (auto simp: get_session_def update_last_accessed_def Let_def split: sum.splits bool.splits)

lemma query_agent_Inr:
  assumes "sessions mgr sid = Some s"
    and "query_agent mgr sid request now_check now_touch = (Inr resp, mgr')"
  shows "sessions mgr' sid =
           Some (s\<lparr>last_accessed := now_touch, status := Processing,
                   current_query := Some (question request), result := None, error := None\<rparr>)"
proof -
  from assms(2) obtain s1 mgr1 where g: "get_session mgr sid now_check now_touch = (Inr s1, mgr1)"
    by (auto simp: query_agent_def split: prod.splits sum.splits)
  from get_session_Inr[OF assms(1) g] have "s1 = s\<lparr>last_accessed := now_touch\<rparr>" .
  with assms(2) g show ?thesis
    by (auto simp: query_agent_def Let_def)
qed

text \<open>Every step of a task keeps the invariant of the payloads.\<close>

lemma task_step_payload_ok:
  assumes "task_step t s = (s', r)" and "payload_ok s"
  shows "payload_ok s'"
proof (cases t)
  case (Task request events fin n)
  show ?thesis
  proof (cases events)
    case Nil
    with Task assms show ?thesis
      by (cases fin) (auto simp: payload_ok_def)
  next
    case (Cons e events')
    show ?thesis
    proof (cases e)
      case Other
      with Task Cons assms show ?thesis by auto
    next
      case (Agent p)
      with Task Cons assms show ?thesis
        by (auto simp: payload_ok_def Let_def split: option.splits if_splits sum.splits)
    qed
  qed
qed

text \<open>
  Run alone from its start, a task ends in the record \<open>process_query\<close> computes: the
  steps of the task are the loop of \<open>process_query\<close> cut at its waits.
\<close>

lemma task_run_event_loop:
  "task_run (Task request events fin n) s
     (case event_loop (max_steps request) events fin n s of
        (Inr final_answer, s') \<Rightarrow> s'\<lparr>status := Completed, result := final_answer\<rparr>
      | (Inl e, s') \<Rightarrow> s'\<lparr>status := Error, error := Some (str_exn e)\<rparr>)"
proof (induction events arbitrary: n s)
  case Nil
  show ?case by (cases fin) (auto intro: task_run.last_step)
next
  case (Cons e events)
  show ?case
  proof (cases e)
    case Other
    have "task_step (Task request (Other # events) fin n) s = (s, Some (Task request events fin n))"
      by simp
    from task_run.next_step[OF this Cons.IH[of n s]] Other show ?thesis by simp
  next
    case (Agent p)
    let ?pred = "case p of None \<Rightarrow> \<lparr>action = None, args = ArgNone\<rparr> | Some d \<Rightarrow> d"
    let ?s = "s\<lparr>current_step := Some (n + 1),
                current_action := Some (str_action (action ?pred) @ '': '' @ str_args (args ?pred))\<rparr>"
    show ?thesis
    proof (cases "\<exists>a. action ?pred = Some a \<and> \<not> contains a ''ANSWER'' \<and> \<not> int (n + 1) > max_steps request")
      case True
      then obtain a where a: "action ?pred = Some a" "\<not> contains a ''ANSWER''"
        "\<not> int (n + 1) > max_steps request" by blast
      then have st: "task_step (Task request (Agent p # events) fin n) s =
          (?s, Some (Task request events fin (n + 1)))"
        by (simp add: Let_def)
      from a have ev: "event_loop (max_steps request) (Agent p # events) fin n s =
          event_loop (max_steps request) events fin (n + 1) ?s"
        by (simp add: Let_def)
      from task_run.next_step[OF st Cons.IH[of "n + 1" ?s]] Agent ev show ?thesis by simp
    next
      case False
      then show ?thesis using Agent
        by (auto simp: Let_def split: option.splits sum.splits intro!: task_run.last_step)
    qed
  qed
qed

lemma task_run_process_query:
  "task_run (Task request events fin 0) s (process_query request events fin s)"
  using task_run_event_loop[of request events fin 0 s] by (simp add: process_query_def)

lemma reachable_task_run:
  assumes "task_run t s s'" and "reachable s (tasks @ [t])"
  shows "reachable s' tasks"
  using assms
proof (induction rule: task_run.induct)
  case (last_step t s s')
  have "length tasks < length (tasks @ [t])" by simp
  moreover have "task_step ((tasks @ [t]) ! length tasks) s = (s', None)"
    using last_step.hyps by simp
  ultimately have "reachable s' (take (length tasks) (tasks @ [t]) @ drop (Suc (length tasks)) (tasks @ [t]))"
    using last_step.prems by (intro reachable.ended)
  then show ?case by simp
next
  case (next_step t s s1 t1 s')
  have "length tasks < length (tasks @ [t])" by simp
  moreover have "task_step ((tasks @ [t]) ! length tasks) s = (s1, Some t1)"
    using next_step.hyps by simp
  ultimately have "reachable s1 ((tasks @ [t])[length tasks := t1])"
    using next_step.prems by (intro reachable.stepped)
  then have "reachable s1 (tasks @ [t1])" by simp
  then show ?case by (rule next_step.IH)
qed

lemma reachable_payload_ok: "reachable s tasks \<Longrightarrow> payload_ok s"
proof (induction rule: reachable.induct)
  case (created sid pg gr timeout now_created now_accessed)
  show ?case by (simp add: payload_ok_def new_session_def)
next
  case (looked_up s tasks mgr sid now_check now_touch s' mgr')
  from get_session_Inr[OF looked_up.hyps(2,3)] looked_up.IH show ?case
    by (simp add: payload_ok_def)
next
  case (submitted s tasks mgr sid request now_check now_touch resp mgr' s' events fin)
  from query_agent_Inr[OF submitted.hyps(2,3)] submitted.hyps(4) show ?case
    by (auto simp: payload_ok_def)
next
  case (stepped s tasks i s' t')
  then show ?case using task_step_payload_ok by blast
next
  case (ended s tasks i s')
  then show ?case using task_step_payload_ok by blast
qed

subsection \<open>The example runs\<close>

lemma example_registered: "sessions example_manager ''s1'' = Some example_session"
  by (simp add: example_manager_def)

lemma example_reachable: "reachable example_session []"
proof -
  have h: "example_session = new_session ''s1'' (Some 0) 0 1 0 0"
    by (simp add: example_session_def new_session_def)
  show ?thesis unfolding h by (rule reachable.created)
qed

lemma first_submission:
  "query_agent example_manager ''s1'' first_request 5 6 =
     (Inr \<lparr>response_session_id = ''s1'', response_status = Processing, answer = None\<rparr>,
      example_manager\<lparr>sessions := (sessions example_manager)(''s1'' \<mapsto> first_submitted)\<rparr>)"
  by (simp add: query_agent_def get_session_def is_expired_def timedelta_minutes_def
        update_last_accessed_def example_manager_def example_session_def first_request_def
        first_submitted_def Let_def)

lemma first_submitted_reachable: "reachable first_submitted [Task first_request events fin 0]"
proof -
  have "sessions (example_manager\<lparr>sessions :=
      (sessions example_manager)(''s1'' \<mapsto> first_submitted)\<rparr>) ''s1'' = Some first_submitted"
    by simp
  from reachable.submitted[OF example_reachable example_registered first_submission this,
      of events fin]
  show ?thesis by simp
qed

lemma second_submission:
  "query_agent \<lparr>sessions = [''s1'' \<mapsto> first_submitted], scheduled = []\<rparr> ''s1'' second_request 7 8 =
     (Inr \<lparr>response_session_id = ''s1'', response_status = Processing, answer = None\<rparr>,
      \<lparr>sessions = [''s1'' \<mapsto> overlap_submitted], scheduled = []\<rparr>)"
  by (simp add: query_agent_def get_session_def is_expired_def timedelta_minutes_def
        update_last_accessed_def example_session_def second_request_def
        first_submitted_def overlap_submitted_def Let_def)

lemma overlap_submitted_reachable: "reachable overlap_submitted [first_task, second_task]"
proof -
  have a: "reachable first_submitted [first_task]"
    using first_submitted_reachable by (simp add: first_task_def)
  have b: "sessions \<lparr>sessions = [''s1'' \<mapsto> first_submitted], scheduled = []\<rparr> ''s1'' =
      Some first_submitted" by simp
  have c: "sessions \<lparr>sessions = [''s1'' \<mapsto> overlap_submitted], scheduled = []\<rparr> ''s1'' =
      Some overlap_submitted" by simp
  from reachable.submitted[OF a b second_submission c, of "[]" "Raised ''boom''"]
  show ?thesis by (simp add: second_task_def)
qed

lemma overlap_reachable: "reachable overlap_final []"
proof -
  obtain s1 where s1: "task_step first_task overlap_submitted = (s1, None)"
    by (simp add: first_task_def startswith_def Let_def)
  have "task_step ([first_task, second_task] ! 0) overlap_submitted = (s1, None)"
    using s1 by simp
  from reachable.ended[OF overlap_submitted_reachable _ this]
  have r1: "reachable s1 [second_task]" by simp
  obtain s2 where s2: "task_step second_task s1 = (s2, None)"
    by (simp add: second_task_def)
  have "task_step ([second_task] ! 0) s1 = (s2, None)"
    using s2 by simp
  from reachable.ended[OF r1 _ this]
  have "reachable s2 []" by simp
  moreover have "overlap_final = s2"
    using s1 s2 by (simp add: overlap_final_def)
  ultimately show ?thesis by simp
qed

lemma silent_reachable: "reachable silent_final []"
proof -
  have "reachable first_submitted ([] @ [Task first_request
      [Agent (Some \<lparr>action = Some ''ANSWER'', args = ArgNone\<rparr>)] Exhausted 0])"
    using first_submitted_reachable by simp
  with task_run_process_query
  have "reachable (process_query first_request
      [Agent (Some \<lparr>action = Some ''ANSWER'', args = ArgNone\<rparr>)] Exhausted first_submitted) []"
    by (rule reachable_task_run)
  then show ?thesis by (simp add: silent_final_def)
qed

section \<open>Claims\<close>

subsection \<open>C1: a query submitted while another is running\<close>

text \<open>
  C1, as the code has it.  \<open>query_agent\<close> has no test of the session's status: for every
  live session, one whose status is \<open>processing\<close> included, submitting a query does
  not fail.  The response has status \<open>processing\<close>, and the stored record is the old one
  with \<open>last_accessed\<close> touched, \<open>status\<close> set to \<open>processing\<close>, \<open>current_query\<close> set to
  the new question and \<open>result\<close> and \<open>error\<close> cleared; \<open>current_step\<close>,
  \<open>current_action\<close> and every other field and registry entry stay as they were.
\<close>

theorem query_agent_accepts:
  assumes "sessions mgr sid = Some s" and "is_expired now_check s = Inr False"
  shows "query_agent mgr sid request now_check now_touch =
           (Inr \<lparr>response_session_id = sid, response_status = Processing, answer = None\<rparr>,
            mgr\<lparr>sessions := (sessions mgr)(sid \<mapsto>
              s\<lparr>last_accessed := now_touch, status := Processing,
                current_query := Some (question request), result := None, error := None\<rparr>)\<rparr>)"
  using assms by (simp add: query_agent_def get_session_def update_last_accessed_def Let_def)

text \<open>The theorem at a session whose first query is at its third step.\<close>

theorem query_agent_accepts_witness:
  "query_agent busy_manager ''s1'' \<lparr>question = ''second question'', max_steps = 150\<rparr> 5 6 =
     (Inr \<lparr>response_session_id = ''s1'', response_status = Processing, answer = None\<rparr>,
      busy_manager\<lparr>sessions := (sessions busy_manager)(''s1'' \<mapsto>
         busy_session\<lparr>last_accessed := 6, status := Processing,
           current_query := Some ''second question'', result := None, error := None\<rparr>)\<rparr>)"
proof -
  have a: "sessions busy_manager ''s1'' = Some busy_session"
    by (simp add: busy_manager_def)
  have b: "is_expired 5 busy_session = Inr False"
    by (simp add: is_expired_def timedelta_minutes_def busy_session_def example_session_def)
  from query_agent_accepts[OF a b, of "\<lparr>question = ''second question'', max_steps = 150\<rparr>" 6]
  show ?thesis by simp
qed

text \<open>
  The rejection the specification states does not happen: the session is
  \<open>processing\<close> with its first question, the second submission returns a response
  and not an error, and the record's \<open>current_query\<close> is the second question
  afterwards.
\<close>

theorem query_in_progress_counterexample:
  "status busy_session = Processing \<and>
   current_query busy_session = Some ''first question'' \<and>
   fst (query_agent busy_manager ''s1'' \<lparr>question = ''second question'', max_steps = 150\<rparr> 5 6) =
     Inr \<lparr>response_session_id = ''s1'', response_status = Processing, answer = None\<rparr> \<and>
   map_option current_query
     (sessions (snd (query_agent busy_manager ''s1''
        \<lparr>question = ''second question'', max_steps = 150\<rparr> 5 6)) ''s1'') =
     Some (Some ''second question'')"
  by (simp add: query_agent_def get_session_def is_expired_def timedelta_minutes_def
        update_last_accessed_def busy_manager_def busy_session_def example_session_def Let_def)

subsection \<open>C2: the answer action ends the run\<close>

text \<open>
  C2.  Let the stream deliver a prefix the loop gets past (its agent events name
  actions that are not answers, and their number does not exceed \<open>max_steps\<close>), and
  then an agent event whose action is an answer (its name contains \<open>ANSWER\<close>, the
  test of the code).  Then, whatever the stream holds after that event and however it
  would end, the run finishes with status \<open>completed\<close> and with result
  \<open>action_input[0] if action_input else None\<close>: the first element of the argument
  list, and \<open>None\<close> when the argument list is missing.
\<close>

theorem answer_completes:
  assumes "\<forall>e \<in> set pre. names_non_answer e"
    and "agent_count pre = 0 \<or> int (agent_count pre) \<le> max_steps request"
    and "action d = Some a" and "contains a ''ANSWER''"
  shows "status (process_query request (pre @ Agent (Some d) # rest) fin s) = Completed \<and>
         result (process_query request (pre @ Agent (Some d) # rest) fin s) = first_arg (args d) \<and>
         (\<forall>x xs. args d = ArgList (x # xs) \<longrightarrow>
            result (process_query request (pre @ Agent (Some d) # rest) fin s) = Some x) \<and>
         (args d = ArgNone \<longrightarrow>
            result (process_query request (pre @ Agent (Some d) # rest) fin s) = None)"
proof -
  from event_loop_prefix[OF assms(1), of 0 "max_steps request" "Agent (Some d) # rest" fin s] assms(2)
  obtain cs ca where
    "event_loop (max_steps request) (pre @ Agent (Some d) # rest) fin 0 s =
     event_loop (max_steps request) (Agent (Some d) # rest) fin (agent_count pre)
       (s\<lparr>current_step := cs, current_action := ca\<rparr>)"
    by auto
  then have "fst (event_loop (max_steps request) (pre @ Agent (Some d) # rest) fin 0 s) =
      Inr (first_arg (args d))"
    using event_loop_answer[OF assms(3,4)] by simp
  from process_query_Inr[OF this] show ?thesis by auto
qed

text \<open>
  Two runs: an answer with two arguments at the second step of a run bounded by one
  step, and an answer without an argument list as the only event.
\<close>

theorem answer_completes_witness:
  "status (process_query \<lparr>question = ''q'', max_steps = 1\<rparr>
      ([Other, Agent (Some \<lparr>action = Some ''Click'', args = ArgList [''14'']\<rparr>), Other]
        @ Agent (Some \<lparr>action = Some ''ANSWER;'', args = ArgList [''42'', ''x'']\<rparr>) # [Other])
      Exhausted example_session) = Completed \<and>
   result (process_query \<lparr>question = ''q'', max_steps = 1\<rparr>
      ([Other, Agent (Some \<lparr>action = Some ''Click'', args = ArgList [''14'']\<rparr>), Other]
        @ Agent (Some \<lparr>action = Some ''ANSWER;'', args = ArgList [''42'', ''x'']\<rparr>) # [Other])
      Exhausted example_session) = Some ''42'' \<and>
   status (process_query \<lparr>question = ''q'', max_steps = 1\<rparr>
      ([] @ Agent (Some \<lparr>action = Some ''ANSWER'', args = ArgNone\<rparr>) # [])
      Exhausted example_session) = Completed \<and>
   result (process_query \<lparr>question = ''q'', max_steps = 1\<rparr>
      ([] @ Agent (Some \<lparr>action = Some ''ANSWER'', args = ArgNone\<rparr>) # [])
      Exhausted example_session) = None"
proof -
  let ?pre = "[Other, Agent (Some \<lparr>action = Some ''Click'', args = ArgList [''14'']\<rparr>), Other]"
  let ?req = "\<lparr>question = ''q'', max_steps = 1\<rparr>"
  have h1: "\<forall>e \<in> set ?pre. names_non_answer e"
    by (simp add: startswith_def)
  have h2: "agent_count ?pre = 0 \<or> int (agent_count ?pre) \<le> max_steps ?req"
    by (simp add: agent_count_def)
  have h3: "action \<lparr>action = Some ''ANSWER;'', args = ArgList [''42'', ''x'']\<rparr> = Some ''ANSWER;''"
    by simp
  have h4: "contains ''ANSWER;'' ''ANSWER''"
    by (simp add: startswith_def)
  have g1: "\<forall>e \<in> set []. names_non_answer e" by simp
  have g2: "agent_count [] = 0 \<or> int (agent_count []) \<le> max_steps ?req"
    by (simp add: agent_count_def)
  have g3: "action \<lparr>action = Some ''ANSWER'', args = ArgNone\<rparr> = Some ''ANSWER''"
    by simp
  have g4: "contains ''ANSWER'' ''ANSWER''"
    by (simp add: startswith_def)
  from answer_completes[OF h1 h2 h3 h4, of "[Other]" Exhausted example_session]
       answer_completes[OF g1 g2 g3 g4, of "[]" Exhausted example_session]
  show ?thesis by simp
qed

subsection \<open>C3: the terminal payloads\<close>

text \<open>
  C3, as the code has it.  In every reachable session record whose status is \<open>error\<close>
  the field \<open>error\<close> is set, and a record that is still \<open>active\<close> has neither field
  set.  Starting a new query sets the status to \<open>processing\<close> and clears \<open>result\<close> and
  \<open>error\<close>.  When the query then runs to its end with no step of another query of
  the same session in between, the record it leaves is reachable and is of one of two
  kinds: status \<open>completed\<close> with \<open>error\<close> null (and \<open>result\<close> the answer, which may
  be null), or status \<open>error\<close> with \<open>error\<close> set and \<open>result\<close> null.  Nothing more
  holds of a terminal record in general: the handler accepts a query while another is
  running, and the two tasks write the same record.
\<close>

theorem terminal_payloads:
  "(reachable s tasks \<longrightarrow>
      (status s = Error \<longrightarrow> error s \<noteq> None) \<and>
      (status s = Active \<longrightarrow> result s = None \<and> error s = None)) \<and>
   (sessions mgr sid = Some s \<and>
    query_agent mgr sid request now_check now_touch = (Inr resp, mgr') \<longrightarrow>
      (\<exists>s0. sessions mgr' sid = Some s0 \<and>
         status s0 = Processing \<and> result s0 = None \<and> error s0 = None \<and>
         (reachable s tasks \<longrightarrow> reachable (process_query request events fin s0) tasks) \<and>
         ((status (process_query request events fin s0) = Completed \<and>
           error (process_query request events fin s0) = None) \<or>
          (status (process_query request events fin s0) = Error \<and>
           error (process_query request events fin s0) \<noteq> None \<and>
           result (process_query request events fin s0) = None))))"
proof (intro conjI impI)
  assume "reachable s tasks"
  then have "payload_ok s" by (rule reachable_payload_ok)
  then show "status s = Error \<Longrightarrow> error s \<noteq> None"
    and "status s = Active \<Longrightarrow> result s = None"
    and "status s = Active \<Longrightarrow> error s = None"
    by (simp_all add: payload_ok_def)
next
  assume a: "sessions mgr sid = Some s \<and>
    query_agent mgr sid request now_check now_touch = (Inr resp, mgr')"
  let ?s0 = "s\<lparr>last_accessed := now_touch, status := Processing,
                current_query := Some (question request), result := None, error := None\<rparr>"
  from a have m: "sessions mgr' sid = Some ?s0"
    by (intro query_agent_Inr) auto
  have k: "result (snd (event_loop (max_steps request) events fin 0 ?s0)) = None"
    "error (snd (event_loop (max_steps request) events fin 0 ?s0)) = None"
    using event_loop_keeps[of "max_steps request" events fin 0 ?s0] by simp_all
  have two: "(status (process_query request events fin ?s0) = Completed \<and>
             error (process_query request events fin ?s0) = None) \<or>
            (status (process_query request events fin ?s0) = Error \<and>
             error (process_query request events fin ?s0) \<noteq> None \<and>
             result (process_query request events fin ?s0) = None)"
  proof (cases "fst (event_loop (max_steps request) events fin 0 ?s0)")
    case (Inl e)
    from process_query_Inl[OF this] k show ?thesis by simp
  next
    case (Inr r)
    from process_query_Inr[OF this] k show ?thesis by simp
  qed
  have alone: "reachable s tasks \<longrightarrow> reachable (process_query request events fin ?s0) tasks"
  proof
    assume "reachable s tasks"
    with a m have "reachable ?s0 (tasks @ [Task request events fin 0])"
      by (intro reachable.submitted[of s tasks mgr sid request now_check now_touch resp mgr']) auto
    with task_run_process_query[of request events fin ?s0]
    show "reachable (process_query request events fin ?s0) tasks"
      by (rule reachable_task_run)
  qed
  from m two alone
  show "\<exists>s0. sessions mgr' sid = Some s0 \<and>
         status s0 = Processing \<and> result s0 = None \<and> error s0 = None \<and>
         (reachable s tasks \<longrightarrow> reachable (process_query request events fin s0) tasks) \<and>
         ((status (process_query request events fin s0) = Completed \<and>
           error (process_query request events fin s0) = None) \<or>
          (status (process_query request events fin s0) = Error \<and>
           error (process_query request events fin s0) \<noteq> None \<and>
           result (process_query request events fin s0) = None))"
    by simp
qed

text \<open>
  The record left by the two overlapping queries is in error and has its message; and
  a query on the new example session, run alone on a stream that raises after one
  tool event, leaves a reachable record.
\<close>

theorem terminal_payloads_witness:
  "error overlap_final \<noteq> None \<and>
   reachable (process_query first_request [Other] (Raised ''boom'') first_submitted) []"
proof -
  have st: "status overlap_final = Error"
    by (simp add: overlap_final_def second_task_def)
  from terminal_payloads[THEN conjunct1, rule_format, OF overlap_reachable, THEN conjunct1,
      rule_format, OF st]
  have a: "error overlap_final \<noteq> None" .
  have h: "sessions example_manager ''s1'' = Some example_session \<and>
      query_agent example_manager ''s1'' first_request 5 6 =
        (Inr \<lparr>response_session_id = ''s1'', response_status = Processing, answer = None\<rparr>,
         example_manager\<lparr>sessions := (sessions example_manager)(''s1'' \<mapsto> first_submitted)\<rparr>)"
    by (rule conjI[OF example_registered first_submission])
  from terminal_payloads[THEN conjunct2, rule_format, OF h,
      of "[]" "[Other]" "Raised ''boom''"]
  obtain s0 where s0: "sessions (example_manager\<lparr>sessions :=
        (sessions example_manager)(''s1'' \<mapsto> first_submitted)\<rparr>) ''s1'' = Some s0"
    and r: "reachable example_session [] \<longrightarrow>
        reachable (process_query first_request [Other] (Raised ''boom'') s0) []"
    by blast
  from s0 have "s0 = first_submitted" by simp
  with r example_reachable a show ?thesis by simp
qed

text \<open>
  A terminal record need not have exactly one of the fields set.  Neither is set when
  the answer comes without an argument list: the record is reachable and
  \<open>completed\<close>, with \<open>result\<close> and \<open>error\<close> null.  Both are set after two overlapping
  queries of which the first answers and the second fails: the record is reachable and
  in \<open>error\<close>, with the answer of the first query in \<open>result\<close>.
\<close>

theorem terminal_payloads_counterexample:
  "reachable silent_final [] \<and>
   status silent_final = Completed \<and> result silent_final = None \<and> error silent_final = None \<and>
   reachable overlap_final [] \<and>
   status overlap_final = Error \<and> result overlap_final = Some ''A'' \<and>
   error overlap_final = Some ''boom''"
proof -
  have "status silent_final = Completed \<and> result silent_final = None \<and> error silent_final = None"
    by (simp add: silent_final_def process_query_def first_request_def first_submitted_def
          example_session_def startswith_def Let_def)
  moreover have "status overlap_final = Error \<and> result overlap_final = Some ''A'' \<and>
      error overlap_final = Some ''boom''"
    by (simp add: overlap_final_def first_task_def second_task_def overlap_submitted_def
          startswith_def Let_def)
  ultimately show ?thesis using silent_reachable overlap_reachable by simp
qed

subsection \<open>C4: the step bound\<close>




subsection \<open>C5: which events count as a step\<close>




subsection \<open>C6: parsing an action line\<close>

text \<open>
  C6, as the code has it.  Let the last line of the text, once the whole text is
  trimmed of surrounding whitespace, be \<open>Action: \<close> followed by \<open>name\<close> and \<open>rest\<close>,
  where \<open>name\<close> holds no space character.  The parser splits at the first space
  character: when nothing follows the name, the action is the trimmed name and
  \<open>args\<close> is none; when a space and \<open>more\<close> follow, \<open>args\<close> is the list of the pieces
  of the trimmed \<open>more\<close> between its semicolons, in their order and with repetitions
  kept, each piece trimmed of surrounding whitespace and then of every leading and
  trailing \<open>[\<close> and \<open>]\<close>.  (By \<open>join_split\<close> and \<open>split_pieces_no_sep\<close> every
  string is such a joining of pieces.)
\<close>

theorem parse_action_line:
  assumes "strip text = pre @ action_prefix @ name @ rest"
    and "pre = [] \<or> last pre = CHR 0x0A"
    and "CHR 0x0A \<notin> set (name @ rest)"
    and "CHR '' '' \<notin> set name"
  shows "(rest = [] \<longrightarrow> parse text = Inr \<lparr>action = Some (strip name), args = ArgNone\<rparr>) \<and>
         (\<forall>more pieces.
            rest = CHR '' '' # more \<and> strip more = join '';'' pieces \<and> pieces \<noteq> [] \<and>
            (\<forall>p \<in> set pieces. CHR '';'' \<notin> set p)
            \<longrightarrow> parse text =
                  Inr \<lparr>action = Some (strip name),
                       args = ArgList (map (\<lambda>p. strip_chars ''[]'' (strip p)) pieces)\<rparr>)"
proof -
  have "CHR 0x0A \<notin> set (action_prefix @ name @ rest)"
    using assms(3) by (simp add: action_prefix_def)
  with assms(1,2) have blk:
    "index_last (split (strip text) CHR 0x0A) = Inr (action_prefix @ name @ rest)"
    by (intro parse_action_block) auto
  have sw: "startswith (action_prefix @ name @ rest) action_prefix"
    by (rule startswith_append)
  have p: "parse text =
    (case split1 (name @ rest) CHR '' '' of
       [] \<Rightarrow> Inl (ValueError ''not enough values to unpack (expected 2, got 0)'')
     | [a] \<Rightarrow> Inr \<lparr>action = Some (strip a), args = ArgNone\<rparr>
     | [a, action_input] \<Rightarrow>
         Inr \<lparr>action = Some (strip a),
              args = ArgList (map (\<lambda>inp. strip_chars ''[]'' (strip inp))
                                  (split (strip action_input) CHR '';''))\<rparr>
     | _ \<Rightarrow> Inl (ValueError ''too many values to unpack (expected 2)''))"
    unfolding parse_def blk using sw by (simp add: Let_def)
  show ?thesis
  proof (intro conjI impI allI)
    assume "rest = []"
    with assms(4) show "parse text = Inr \<lparr>action = Some (strip name), args = ArgNone\<rparr>"
      by (simp add: p split1_no_sep)
  next
    fix more pieces
    assume a: "rest = CHR '' '' # more \<and> strip more = join '';'' pieces \<and> pieces \<noteq> [] \<and>
            (\<forall>p \<in> set pieces. CHR '';'' \<notin> set p)"
    then have "split (strip more) CHR '';'' = pieces"
      using split_join[of pieces "CHR '';''"] by simp
    with a assms(4) show "parse text =
                  Inr \<lparr>action = Some (strip name),
                       args = ArgList (map (\<lambda>p. strip_chars ''[]'' (strip p)) pieces)\<rparr>"
      by (simp add: p split1_append_sep)
  qed
qed

text \<open>The example of the specification: a \<open>Type\<close> action with two arguments.\<close>

theorem parse_action_line_witness:
  "parse ''Action: Type 3; hello world'' =
     Inr \<lparr>action = Some ''Type'', args = ArgList [''3'', ''hello world'']\<rparr>"
proof -
  have s: "strip ''Action: Type 3; hello world'' = [] @ action_prefix @ ''Type'' @ '' 3; hello world''"
    by (simp add: strip_def isspace_def action_prefix_def)
  have "\<forall>more pieces.
            '' 3; hello world'' = CHR '' '' # more \<and> strip more = join '';'' pieces \<and> pieces \<noteq> [] \<and>
            (\<forall>p \<in> set pieces. CHR '';'' \<notin> set p)
            \<longrightarrow> parse ''Action: Type 3; hello world'' =
                  Inr \<lparr>action = Some (strip ''Type''),
                       args = ArgList (map (\<lambda>p. strip_chars ''[]'' (strip p)) pieces)\<rparr>"
    using parse_action_line[OF s] by simp
  from this[rule_format, of "''3; hello world''" "[''3'', '' hello world'']"]
  show ?thesis
    by (simp add: strip_def isspace_def strip_chars_def)
qed

text \<open>
  The claim as the specification states it fails on an argument in two layers of
  brackets: the last non-empty line starts with the marker, the code strips both
  layers, and the parser of the specification's words strips one.
\<close>

theorem parse_one_layer_counterexample:
  "startswith (last_nonempty_line ''Action: Type [[3]]'') action_prefix \<and>
   parse ''Action: Type [[3]]'' = Inr \<lparr>action = Some ''Type'', args = ArgList [''3'']\<rparr> \<and>
   action_parser_spec ''Action: Type [[3]]'' = \<lparr>action = Some ''Type'', args = ArgList [''[3]'']\<rparr>"
  by (simp add: parse_def index_last_def strip_def isspace_def startswith_def action_prefix_def
       strip_chars_def action_parser_spec_def last_nonempty_line_def trim_one_layer_def)

text \<open>
  Two more inputs where the words of the specification and the code part: a tab after
  the name is a whitespace run but not a space, and a marker followed by nothing is
  trimmed to \<open>Action:\<close>, which no longer starts with the marker.
\<close>

lemma parse_tab_after_name:
  "parse (''Action: Type'' @ [CHR 0x09] @ ''3'') =
     Inr \<lparr>action = Some (''Type'' @ [CHR 0x09] @ ''3''), args = ArgNone\<rparr> \<and>
   action_parser_spec (''Action: Type'' @ [CHR 0x09] @ ''3'') =
     \<lparr>action = Some ''Type'', args = ArgList [''3'']\<rparr>"
  by (simp add: parse_def index_last_def strip_def isspace_def startswith_def action_prefix_def
       strip_chars_def action_parser_spec_def last_nonempty_line_def trim_one_layer_def)

lemma parse_bare_marker:
  "startswith (last_nonempty_line ''Action: '') action_prefix \<and>
   parse ''Action: '' =
     Inr \<lparr>action = Some ''retry'', args = ArgStr ''Could not parse LLM Output: Action: ''\<rparr>"
  by (simp add: parse_def index_last_def strip_def isspace_def startswith_def action_prefix_def
       last_nonempty_line_def)

subsection \<open>C7: the parser never fails\<close>

text \<open>
  C7, as the code has it.  \<open>parse\<close> returns a prediction for every text: neither the
  indexing nor the unpacking can raise.  Whenever the last line of the text, once the
  whole text is trimmed of surrounding whitespace, does not start with \<open>Action: \<close>,
  the result is the retry marker, whose argument is \<open>Could not parse LLM Output: \<close>
  followed by the text as it was given.
\<close>

theorem parse_total_retry:
  "(\<exists>p. parse text = Inr p) \<and>
   (\<forall>pre line.
      strip text = pre @ line \<and> (pre = [] \<or> last pre = CHR 0x0A) \<and> CHR 0x0A \<notin> set line \<and>
      \<not> startswith line action_prefix
      \<longrightarrow> parse text = Inr \<lparr>action = Some ''retry'',
                             args = ArgStr (''Could not parse LLM Output: '' @ text)\<rparr>)"
proof (intro conjI allI impI)
  show "\<exists>p. parse text = Inr p" by (rule parse_returns)
next
  fix pre line
  assume a: "strip text = pre @ line \<and> (pre = [] \<or> last pre = CHR 0x0A) \<and> CHR 0x0A \<notin> set line \<and>
      \<not> startswith line action_prefix"
  then have "index_last (split (strip text) CHR 0x0A) = Inr line"
    by (intro parse_action_block) auto
  with a show "parse text = Inr \<lparr>action = Some ''retry'',
                             args = ArgStr (''Could not parse LLM Output: '' @ text)\<rparr>"
    by (simp add: parse_def)
qed

text \<open>The example of the specification: a text without the marker.\<close>

theorem parse_total_retry_witness:
  "parse ''no marker here'' =
     Inr \<lparr>action = Some ''retry'', args = ArgStr ''Could not parse LLM Output: no marker here''\<rparr>"
proof -
  have h: "strip ''no marker here'' = [] @ ''no marker here'' \<and> ([] = [] \<or> last [] = CHR 0x0A) \<and>
        CHR 0x0A \<notin> set ''no marker here'' \<and> \<not> startswith ''no marker here'' action_prefix"
    by (simp add: strip_def isspace_def startswith_def action_prefix_def)
  from parse_total_retry[of "''no marker here''"]
  have "\<forall>pre line.
      strip ''no marker here'' = pre @ line \<and> (pre = [] \<or> last pre = CHR 0x0A) \<and>
      CHR 0x0A \<notin> set line \<and> \<not> startswith line action_prefix
      \<longrightarrow> parse ''no marker here'' =
            Inr \<lparr>action = Some ''retry'',
                 args = ArgStr (''Could not parse LLM Output: '' @ ''no marker here'')\<rparr>"
    by (rule conjunct2)
  from this[rule_format, OF h] show ?thesis by simp
qed

text \<open>
  The claim as the specification states it fails on a text of one line that starts
  with a space: its last non-empty line does not start with the marker, yet the code
  trims the text first and parses a \<open>Click\<close>.
\<close>

theorem parse_leading_space_counterexample:
  "\<not> startswith (last_nonempty_line '' Action: Click 1'') action_prefix \<and>
   parse '' Action: Click 1'' = Inr \<lparr>action = Some ''Click'', args = ArgList [''1'']\<rparr>"
  by (simp add: parse_def index_last_def strip_def isspace_def startswith_def action_prefix_def
       strip_chars_def last_nonempty_line_def)

subsection \<open>C8: the scratchpad\<close>




subsection \<open>C9: looking up an expired session\<close>

text \<open>
  C9, as the code has it.  For a registered session that is expired (the timeout is in
  the range of \<open>timedelta\<close>, and \<open>now - last_accessed\<close> is greater than it), the
  lookup fails with the 404 \<open>Session expired\<close> and hands one cleanup task for the
  session to the event loop.  The lookup itself does not touch the dictionary: the
  record is still registered when the lookup has returned.  It is removed when the
  scheduled cleanup runs.
\<close>

theorem get_session_expired_scheduled:
  assumes "sessions mgr sid = Some s"
    and "- 999999999 \<le> timeout_minutes s div 1440" and "timeout_minutes s div 1440 \<le> 999999999"
    and "now_check - last_accessed s > timeout_minutes s * 60000000"
  shows "get_session mgr sid now_check now_touch =
           (Inl (HTTPException 404 ''Session expired''),
            mgr\<lparr>scheduled := scheduled mgr @ [sid]\<rparr>) \<and>
         sessions (snd (get_session mgr sid now_check now_touch)) = sessions mgr \<and>
         sessions (snd (get_session mgr sid now_check now_touch)) sid = Some s \<and>
         sessions (cleanup_session (snd (get_session mgr sid now_check now_touch)) sid) sid = None"
proof -
  have "is_expired now_check s = Inr True"
    using assms(2-4) by (simp add: is_expired_iff)
  with assms(1) show ?thesis
    by (simp add: get_session_def cleanup_session_def close_session_def)
qed

text \<open>The example of the specification: a timeout of one minute, looked up after 61.\<close>

theorem get_session_expired_scheduled_witness:
  "get_session example_manager ''s1'' 3660000000 3660000001 =
     (Inl (HTTPException 404 ''Session expired''),
      example_manager\<lparr>scheduled := scheduled example_manager @ [''s1'']\<rparr>) \<and>
   sessions (snd (get_session example_manager ''s1'' 3660000000 3660000001)) =
     sessions example_manager \<and>
   sessions (snd (get_session example_manager ''s1'' 3660000000 3660000001)) ''s1'' =
     Some example_session \<and>
   sessions (cleanup_session
     (snd (get_session example_manager ''s1'' 3660000000 3660000001)) ''s1'') ''s1'' = None"
proof -
  have a: "sessions example_manager ''s1'' = Some example_session"
    by (simp add: example_manager_def)
  have b: "- 999999999 \<le> timeout_minutes example_session div 1440"
    "timeout_minutes example_session div 1440 \<le> 999999999"
    "3660000000 - last_accessed example_session > timeout_minutes example_session * 60000000"
    by (simp_all add: example_session_def)
  show ?thesis by (rule get_session_expired_scheduled[OF a b])
qed

text \<open>
  The session is not absent after the lookup: the lookup of the expired example
  session fails with \<open>Session expired\<close>, and the dictionary still maps its id to the
  record.
\<close>

theorem get_session_expired_counterexample:
  "fst (get_session example_manager ''s1'' 3660000000 3660000000) =
     Inl (HTTPException 404 ''Session expired'') \<and>
   sessions (snd (get_session example_manager ''s1'' 3660000000 3660000000)) ''s1'' =
     Some example_session"
  by (simp add: get_session_def is_expired_def timedelta_minutes_def example_manager_def
        example_session_def)

subsection \<open>C10: looking up a live session\<close>

text \<open>
  C10.  For a session that is registered and not expired, the lookup returns the
  stored record with \<open>last_accessed\<close> set to the time of the touch and nothing else
  changed: \<open>status\<close>, \<open>current_query\<close>, \<open>result\<close>, \<open>error\<close>, \<open>current_step\<close>,
  \<open>current_action\<close>, \<open>created_at\<close>, the timeout, the id and the two handles are
  those of the record before.  Every other entry of the registry and the scheduled
  tasks are unchanged.
\<close>

theorem get_session_live_frame:
  assumes "sessions mgr sid = Some s" and "is_expired now_check s = Inr False"
  shows "get_session mgr sid now_check now_touch =
           (Inr (s\<lparr>last_accessed := now_touch\<rparr>),
            mgr\<lparr>sessions := (sessions mgr)(sid \<mapsto> s\<lparr>last_accessed := now_touch\<rparr>)\<rparr>) \<and>
         (\<exists>s' mgr'. get_session mgr sid now_check now_touch = (Inr s', mgr') \<and>
            sessions mgr' sid = Some s' \<and>
            last_accessed s' = now_touch \<and>
            status s' = status s \<and> current_query s' = current_query s \<and>
            result s' = result s \<and> error s' = error s \<and>
            current_step s' = current_step s \<and> current_action s' = current_action s \<and>
            created_at s' = created_at s \<and> timeout_minutes s' = timeout_minutes s \<and>
            session_id s' = session_id s \<and> page s' = page s \<and> graph s' = graph s \<and>
            (\<forall>other. other \<noteq> sid \<longrightarrow> sessions mgr' other = sessions mgr other) \<and>
            scheduled mgr' = scheduled mgr)"
  using assms by (simp add: get_session_def update_last_accessed_def Let_def)

text \<open>The example session, looked up exactly one minute after its creation.\<close>

theorem get_session_live_frame_witness:
  "get_session example_manager ''s1'' 60000000 60000001 =
     (Inr (example_session\<lparr>last_accessed := 60000001\<rparr>),
      example_manager\<lparr>sessions :=
        (sessions example_manager)(''s1'' \<mapsto> example_session\<lparr>last_accessed := 60000001\<rparr>)\<rparr>)"
proof -
  have a: "sessions example_manager ''s1'' = Some example_session"
    by (simp add: example_manager_def)
  have b: "is_expired 60000000 example_session = Inr False"
    by (simp add: is_expired_def timedelta_minutes_def example_session_def)
  from get_session_live_frame[OF a b, of 60000001] show ?thesis by (rule conjunct1)
qed

end
